theory Spec2Isabelle
  imports Main "HOL-Library.Sublist" "HOL-Library.Monad_Syntax"
begin

section \<open>Strings\<close>

text \<open>
  Python strings are modelled as \<open>string\<close>, a list of characters; a character stands for a
  code point below 256.  The line feed is \<open>nl\<close>.
\<close>

abbreviation nl :: char where
  "nl \<equiv> CHR 0x0A"

text \<open>
  \<open>str.isspace\<close> and the regular-expression class \<open>\s\<close> on one code point below 256:
  tab, line feed, vertical tab, form feed, carriage return, the four separators
  0x1C..0x1F, space, next line 0x85 and no-break space 0xA0.
\<close>

definition isspace :: "char \<Rightarrow> bool" where
  "isspace c = (c \<in> set [CHR 0x09, nl, CHR 0x0B, CHR 0x0C, CHR 0x0D, CHR 0x1C, CHR 0x1D,
                          CHR 0x1E, CHR 0x1F, CHR 0x20, CHR 0x85, CHR 0xA0])"

definition lstrip :: "string \<Rightarrow> string" where
  "lstrip s = dropWhile isspace s"

definition rstrip :: "string \<Rightarrow> string" where
  "rstrip s = rev (dropWhile isspace (rev s))"

text \<open>\<open>s.strip()\<close>\<close>

definition strip :: "string \<Rightarrow> string" where
  "strip s = rstrip (lstrip s)"

text \<open>\<open>s.split('\n')\<close>: never the empty list.\<close>

fun split_nl :: "string \<Rightarrow> string list" where
  "split_nl [] = [[]]"
| "split_nl (c # cs) =
     (if c = nl then [] # split_nl cs
      else (case split_nl cs of l # ls \<Rightarrow> (c # l) # ls | [] \<Rightarrow> [[c]]))"

text \<open>\<open>sep.join(ls)\<close>\<close>

fun join :: "string \<Rightarrow> string list \<Rightarrow> string" where
  "join sep [] = []"
| "join sep [l] = l"
| "join sep (l # ls) = l @ sep @ join sep ls"

abbreviation join_nl :: "string list \<Rightarrow> string" where
  "join_nl \<equiv> join [nl]"

text \<open>A literal at the head of the text: what follows it.\<close>

definition match_lit :: "string \<Rightarrow> string \<Rightarrow> string option" where
  "match_lit lit s = (if prefix lit s then Some (drop (length lit) s) else None)"

section \<open>release-notes.py\<close>

subsection \<open>clean_content\<close>

text \<open>
  The text after the first \<open>-->\<close> of a string, if there is one: where the lazy \<open>.*?-->\<close>
  (with DOTALL) ends.
\<close>

fun after_close :: "string \<Rightarrow> string option" where
  "after_close [] = None"
| "after_close (c # cs) =
     (if prefix ''-->'' (c # cs) then Some (drop 3 (c # cs)) else after_close cs)"

text \<open>
  \<open>re.sub(r'<!--.*?-->', '', content, flags=re.DOTALL)\<close>: scanning from the left, a
  \<open><!--\<close> that has a \<open>-->\<close> after it is removed up to the first such \<open>-->\<close>, and the
  scan goes on behind it; any other character is kept.
\<close>

function remove_comments :: "string \<Rightarrow> string" where
  "remove_comments [] = []"
| "remove_comments (c # cs) =
     (if prefix ''<!--'' (c # cs) then
        (case after_close (drop 4 (c # cs)) of
           Some rest \<Rightarrow> remove_comments rest
         | None \<Rightarrow> c # remove_comments cs)
      else c # remove_comments cs)"
  by pat_completeness auto
termination
proof (relation "measure length")
  show "wf (measure length)" by simp
next
  fix c :: char and cs rest :: string
  assume "after_close (drop 4 (c # cs)) = Some rest"
  moreover have "after_close s = Some r \<Longrightarrow> length r < length s" for s r
    by (induction s) (auto split: if_splits)
  ultimately have "length rest < length (drop 4 (c # cs))" by blast
  then show "(rest, c # cs) \<in> measure length" by simp
qed simp_all

text \<open>
  Where \<open>\s*\n\<close> ends on the text behind a line feed: \<open>\s*\<close> is greedy, so the match
  ends behind the last line feed of the longest run of whitespace; there is no match when
  that run has no line feed.
\<close>

definition blank_run_end :: "string \<Rightarrow> string option" where
  "blank_run_end cs =
     (let run = takeWhile isspace cs in
      if nl \<in> set run
      then Some (drop (length run - length (takeWhile (\<lambda>c. c \<noteq> nl) (rev run))) cs)
      else None)"

text \<open>\<open>re.sub(r'\n\s*\n', '\n', content)\<close>\<close>

function collapse_blank :: "string \<Rightarrow> string" where
  "collapse_blank [] = []"
| "collapse_blank (c # cs) =
     (if c = nl then
        (case blank_run_end cs of
           Some rest \<Rightarrow> nl # collapse_blank rest
         | None \<Rightarrow> c # collapse_blank cs)
      else c # collapse_blank cs)"
  by pat_completeness auto
termination
proof (relation "measure length")
  show "wf (measure length)" by simp
next
  fix c :: char and cs rest :: string
  assume "blank_run_end cs = Some rest"
  then have "length rest \<le> length cs"
    by (auto simp: blank_run_end_def Let_def split: if_splits)
  then show "(rest, c # cs) \<in> measure length" by simp
qed simp_all

definition clean_content :: "string \<Rightarrow> string" where
  "clean_content content =
     strip (collapse_blank (join_nl (map strip (split_nl (remove_comments content)))))"

subsection \<open>is_opt_out\<close>

text \<open>
  \<open>s.upper()\<close> on the letters \<open>a\<close>..\<open>z\<close>; every other character is left as it is.  No
  character outside \<open>a\<close>..\<open>z\<close> has an upper case among the letters of \<open>NONE\<close>, so the
  comparison of \<open>is_opt_out\<close> is the source's.
\<close>

definition upper_char :: "char \<Rightarrow> char" where
  "upper_char c =
     (let n = (of_char c :: nat) in if 97 \<le> n \<and> n \<le> 122 then char_of (n - 32) else c)"

definition upper :: "string \<Rightarrow> string" where
  "upper s = map upper_char s"

text \<open>
  A literal under \<open>re.IGNORECASE\<close>: among the code points below 256 a letter of
  \<open>a\<close>..\<open>z\<close> matches itself and its capital only.
\<close>

definition match_ci :: "string \<Rightarrow> string \<Rightarrow> string option" where
  "match_ci lit s =
     (if length lit \<le> length s \<and> upper (take (length lit) s) = upper lit
      then Some (drop (length lit) s) else None)"

definition is_opt_out :: "string \<Rightarrow> bool" where
  "is_opt_out content = (upper (clean_content content) = ''NONE'')"

subsection \<open>extract_release_notes_section\<close>

text \<open>The greedy \<open>\s+\<close> in front of something that is no whitespace: what follows it.\<close>

definition match_ws1 :: "string \<Rightarrow> string option" where
  "match_ws1 s =
     (case s of [] \<Rightarrow> None
      | c # cs \<Rightarrow> if isspace c then Some (dropWhile isspace cs) else None)"

text \<open>The lookahead \<open>##\s\<close>; the \<open>^\<close> in front of it is the flag \<open>bol\<close> of the callers.\<close>

definition next_heading :: "string \<Rightarrow> bool" where
  "next_heading s =
     (prefix ''##'' s \<and> (case drop 2 s of [] \<Rightarrow> False | d # _ \<Rightarrow> isspace d))"

text \<open>
  The lazy group \<open>([\s\S]*?)(?=^##\s|\Z)\<close>: the shortest text up to a line start where
  \<open>##\s\<close> follows, or up to the end.  \<open>bol\<close> says that the character in front is a
  line feed (multiline \<open>^\<close>).
\<close>

fun section_body :: "bool \<Rightarrow> string \<Rightarrow> string" where
  "section_body bol [] = []"
| "section_body bol (c # cs) =
     (if bol \<and> next_heading (c # cs) then [] else c # section_body (c = nl) cs)"

text \<open>
  The pattern \<open>##\s+Release\s+Notes\s+([\s\S]*?)(?=^##\s|\Z)\<close> at a line start: group 1.
  Each \<open>\s+\<close> takes the whole run of whitespace: what follows it in the pattern
  cannot begin with whitespace, and the lazy group always finds its end.
\<close>

definition match_section :: "string \<Rightarrow> string option" where
  "match_section s =
     do {
       r \<leftarrow> match_lit ''##'' s;
       r \<leftarrow> match_ws1 r;
       r \<leftarrow> match_ci ''Release'' r;
       r \<leftarrow> match_ws1 r;
       r \<leftarrow> match_ci ''Notes'' r;
       body \<leftarrow> match_ws1 r;
       Some (section_body (last (takeWhile isspace r) = nl) body)
     }"

text \<open>
  \<open>re.search\<close> with the multiline \<open>^\<close>: the first line start where the pattern
  matches.  \<open>bol\<close> is true at the start of the text and behind a line feed.
\<close>

fun search_section :: "bool \<Rightarrow> string \<Rightarrow> string option" where
  "search_section bol [] = None"
| "search_section bol (c # cs) =
     (case (if bol then match_section (c # cs) else None) of
        Some g \<Rightarrow> Some g
      | None \<Rightarrow> search_section (c = nl) cs)"

definition extract_release_notes_section :: "string \<Rightarrow> string option" where
  "extract_release_notes_section pr_body =
     (if pr_body = [] then None
      else (case search_section True pr_body of
              None \<Rightarrow> None
            | Some g \<Rightarrow> Some (strip g)))"

subsection \<open>parse_release_notes\<close>

definition VALID_CATEGORIES :: "string list" where
  "VALID_CATEGORIES = [''Added'', ''Changed'', ''Deprecated'', ''Removed'', ''Fixed'', ''Security'']"

text \<open>
  A dict of lists in insertion order: an association list whose keys are distinct.
\<close>

type_synonym categories = "(string \<times> string list) list"

text \<open>\<open>if c not in d: d[c] = []\<close>\<close>

definition add_key :: "string \<Rightarrow> categories \<Rightarrow> categories" where
  "add_key c d = (if c \<in> set (map fst d) then d else d @ [(c, [])])"

text \<open>\<open>d[c].append(e)\<close>, for a key of \<open>d\<close> (the callers add the key first).\<close>

definition append_entry :: "string \<Rightarrow> string \<Rightarrow> categories \<Rightarrow> categories" where
  "append_entry c e d = map (\<lambda>(k, es). if k = c then (k, es @ [e]) else (k, es)) d"

text \<open>
  \<open>re.match(r'^###\s+(.+)$', line)\<close>, group 1, on a line without line feed (the lines
  come from \<open>split('\n')\<close>).  \<open>\s+\<close> takes the whole run of whitespace and \<open>.+\<close>
  the rest of the line; when nothing is left for \<open>.+\<close>, \<open>\s+\<close> gives its last
  character back.
\<close>

definition category_match :: "string \<Rightarrow> string option" where
  "category_match line =
     (case match_lit ''###'' line of
        None \<Rightarrow> None
      | Some r \<Rightarrow>
          (let w = takeWhile isspace r; t = dropWhile isspace r in
           if w = [] then None
           else if t \<noteq> [] then Some t
           else if 2 \<le> length w then Some [last w]
           else None))"

text \<open>
  The body of the loop over the lines: the state is the dict and \<open>current_category\<close>.
\<close>

definition parse_line :: "categories \<times> string option \<Rightarrow> string \<Rightarrow> categories \<times> string option" where
  "parse_line st raw =
     (let line = strip raw in
      if line = [] then st
      else
        (case category_match line of
           Some g \<Rightarrow>
             (let category = strip g in
              if category \<in> set VALID_CATEGORIES
              then (add_key category (fst st), Some category)
              else (fst st, None))
         | None \<Rightarrow>
             if prefix ''-'' line \<or> prefix ''*'' line then
               (case snd st of
                  None \<Rightarrow> st
                | Some c \<Rightarrow>
                    if c = [] then st
                    else (let entry = strip (drop 1 line) in
                          if entry \<noteq> [] then (append_entry c entry (fst st), Some c) else st))
             else st))"

definition parse_release_notes :: "string \<Rightarrow> categories" where
  "parse_release_notes content =
     fst (foldl parse_line ([], None) (split_nl (clean_content content)))"

subsection \<open>validate_release_notes\<close>

definition msg_not_found :: string where
  "msg_not_found = ''Release Notes section not found in PR description''"

definition msg_opt_out :: string where
  "msg_opt_out = ''Release notes opted out (NONE)''"

definition msg_no_category :: string where
  "msg_no_category =
     ''Release notes must contain at least one valid category (Added, Changed, Deprecated, Removed, Fixed, Security) with entries, or ''
     @ [CHR 0x27] @ ''NONE'' @ [CHR 0x27] @ '' to opt out''"

definition msg_valid :: string where
  "msg_valid = ''Release notes are valid''"

definition validate_release_notes :: "string \<Rightarrow> bool \<times> string \<times> categories option" where
  "validate_release_notes pr_body =
     (case extract_release_notes_section pr_body of
        None \<Rightarrow> (False, msg_not_found, None)
      | Some release_notes \<Rightarrow>
          if is_opt_out release_notes then (True, msg_opt_out, None)
          else
            (let categories = parse_release_notes release_notes in
             if categories = [] then (False, msg_no_category, None)
             else
               (let empty_categories = map fst (filter (\<lambda>(cat, entries). entries = []) categories) in
                if empty_categories \<noteq> []
                then (False, ''Categories '' @ join '', '' empty_categories @ '' have no entries'', None)
                else (True, msg_valid, Some categories))))"

subsection \<open>format_changelog_from_prs\<close>

text \<open>
  A PR of the JSON file.  The file is read by the caller: the model takes the list of
  its records.
\<close>

record pr =
  pr_number :: int
  pr_url :: string
  pr_author :: string
  pr_author_url :: string
  pr_body :: string

text \<open>The decimal digits of a natural number, and \<open>str(n)\<close> of a Python int.\<close>

fun digits :: "nat \<Rightarrow> string" where
  "digits n = (if n < 10 then [char_of (48 + n)] else digits (n div 10) @ [char_of (48 + n mod 10)])"

declare digits.simps [simp del]

definition str_int :: "int \<Rightarrow> string" where
  "str_int i = (if i < 0 then CHR ''-'' # digits (nat (- i)) else digits (nat i))"

text \<open>The attribution of one entry; \<open>sub in s\<close> is \<open>sublist sub s\<close>.\<close>

definition format_entry :: "pr \<Rightarrow> string \<Rightarrow> string" where
  "format_entry p entry =
     (if \<not> sublist (''#'' @ str_int (pr_number p)) entry \<and> \<not> sublist (pr_url p) entry
      then entry @ '' [#'' @ str_int (pr_number p) @ '']('' @ pr_url p @ '') [''
             @ pr_author p @ '']('' @ pr_author_url p @ '')''
      else entry)"

text \<open>\<open>d[c]\<close> for a key of \<open>d\<close>.\<close>

definition entries_of :: "categories \<Rightarrow> string \<Rightarrow> string list" where
  "entries_of d c = (case map_of d c of None \<Rightarrow> [] | Some es \<Rightarrow> es)"

text \<open>The body of the loop over the entries of one category of one PR.\<close>

definition add_entry :: "pr \<Rightarrow> string \<Rightarrow> categories \<Rightarrow> string \<Rightarrow> categories" where
  "add_entry p category all_categories entry =
     (let formatted_entry = format_entry p entry in
      if formatted_entry \<in> set (entries_of all_categories category) then all_categories
      else append_entry category formatted_entry all_categories)"

text \<open>The body of the loop over the categories of one PR.\<close>

definition add_category :: "pr \<Rightarrow> categories \<Rightarrow> string \<times> string list \<Rightarrow> categories" where
  "add_category p all_categories ce =
     foldl (add_entry p (fst ce)) (add_key (fst ce) all_categories) (snd ce)"

text \<open>The body of the loop over the PRs.\<close>

definition add_pr :: "categories \<Rightarrow> pr \<Rightarrow> categories" where
  "add_pr all_categories p =
     (case extract_release_notes_section (pr_body p) of
        None \<Rightarrow> all_categories
      | Some release_notes \<Rightarrow>
          if is_opt_out release_notes then all_categories
          else foldl (add_category p) all_categories (parse_release_notes release_notes))"

definition collect_prs :: "pr list \<Rightarrow> categories" where
  "collect_prs prs = foldl add_pr [] prs"

definition category_order :: "string list" where
  "category_order = [''Added'', ''Changed'', ''Deprecated'', ''Removed'', ''Fixed'', ''Security'']"

text \<open>The body of the loop over \<open>category_order\<close>, on \<open>changelog_lines\<close>.\<close>

definition render_category :: "categories \<Rightarrow> string list \<Rightarrow> string \<Rightarrow> string list" where
  "render_category all_categories changelog_lines category =
     (case map_of all_categories category of
        None \<Rightarrow> changelog_lines
      | Some es \<Rightarrow>
          if es = [] then changelog_lines
          else foldl (\<lambda>ls entry. ls @ [''- '' @ entry]) (changelog_lines @ [''### '' @ category]) es
               @ [[]])"

definition render_changelog :: "categories \<Rightarrow> string" where
  "render_changelog all_categories =
     strip (join_nl (foldl (render_category all_categories) [] category_order))"

definition format_changelog_from_prs :: "pr list \<Rightarrow> string" where
  "format_changelog_from_prs prs = render_changelog (collect_prs prs)"

section \<open>update-changelog.py\<close>

definition isdigit :: "char \<Rightarrow> bool" where
  "isdigit c = (48 \<le> (of_char c :: nat) \<and> (of_char c :: nat) \<le> 57)"

text \<open>\<open>\d{n}\<close>: what follows it.\<close>

fun match_digits :: "nat \<Rightarrow> string \<Rightarrow> string option" where
  "match_digits 0 s = Some s"
| "match_digits (Suc n) [] = None"
| "match_digits (Suc n) (c # cs) = (if isdigit c then match_digits n cs else None)"

text \<open>
  The pattern \<open>## \[([^\]]+)\] - \d{4}-\d{2}-\d{2}\<close> at the head of the text: group 1
  and the length of the match.  \<open>[^\]]+\<close> runs up to the first \<open>]\<close>.
\<close>

definition match_version_header :: "string \<Rightarrow> (string \<times> nat) option" where
  "match_version_header s =
     do {
       r \<leftarrow> match_lit ''## ['' s;
       g \<leftarrow> (if takeWhile (\<lambda>c. c \<noteq> CHR '']'') r = [] then None
             else Some (takeWhile (\<lambda>c. c \<noteq> CHR '']'') r));
       r \<leftarrow> match_lit ''] - '' (dropWhile (\<lambda>c. c \<noteq> CHR '']'') r);
       r \<leftarrow> match_digits 4 r;
       r \<leftarrow> match_lit ''-'' r;
       r \<leftarrow> match_digits 2 r;
       r \<leftarrow> match_lit ''-'' r;
       r \<leftarrow> match_digits 2 r;
       Some (g, length s - length r)
     }"

text \<open>
  \<open>re.finditer(version_pattern, content)\<close>: the start offset and group 1 of each match,
  from the left, without overlap.  \<open>skip\<close> counts the characters left of a match that
  has been found; \<open>pos\<close> is the offset of the text in \<open>content\<close>.
\<close>

fun finditer_version :: "nat \<Rightarrow> nat \<Rightarrow> string \<Rightarrow> (nat \<times> string) list" where
  "finditer_version skip pos [] = []"
| "finditer_version (Suc k) pos (c # cs) = finditer_version k (Suc pos) cs"
| "finditer_version 0 pos (c # cs) =
     (case match_version_header (c # cs) of
        None \<Rightarrow> finditer_version 0 (Suc pos) cs
      | Some (g, len) \<Rightarrow> (pos, g) # finditer_version (len - 1) (Suc pos) cs)"

text \<open>The pattern \<open>## \[Unreleased\]\s*\n\<close> at the head of the text: the length of the match.\<close>

definition match_unreleased :: "string \<Rightarrow> nat option" where
  "match_unreleased s =
     do {
       r \<leftarrow> match_lit ''## [Unreleased]'' s;
       r \<leftarrow> blank_run_end r;
       Some (length s - length r)
     }"

text \<open>\<open>re.search(r'## \[Unreleased\]\s*\n', content)\<close>: the end offset of the first match.\<close>

fun search_unreleased :: "nat \<Rightarrow> string \<Rightarrow> nat option" where
  "search_unreleased pos [] = None"
| "search_unreleased pos (c # cs) =
     (case match_unreleased (c # cs) of
        Some len \<Rightarrow> Some (pos + len)
      | None \<Rightarrow> search_unreleased (Suc pos) cs)"

text \<open>\<open>s.lstrip('v')\<close>\<close>

definition lstrip_v :: "string \<Rightarrow> string" where
  "lstrip_v s = dropWhile (\<lambda>c. c = CHR ''v'') s"

text \<open>
  The loop over \<open>matches\<close>, to \<open>insert_position\<close>.  \<open>packaging.version.Version\<close> is a
  library outside the repository: \<open>parse\<close> is its constructor (\<open>None\<close> where it raises)
  and \<open>gt\<close> its \<open>>\<close>.
\<close>

fun find_insert_position ::
  "(string \<Rightarrow> 'v option) \<Rightarrow> ('v \<Rightarrow> 'v \<Rightarrow> bool) \<Rightarrow> 'v \<Rightarrow> nat \<Rightarrow> (nat \<times> string) list \<Rightarrow> nat option" where
  "find_insert_position parse gt new_version_obj search_start [] = None"
| "find_insert_position parse gt new_version_obj search_start ((start, existing_version_str) # matches) =
     (if start < search_start then find_insert_position parse gt new_version_obj search_start matches
      else
        (case parse (lstrip_v existing_version_str) of
           None \<Rightarrow> find_insert_position parse gt new_version_obj search_start matches
         | Some existing_version_obj \<Rightarrow>
             if gt new_version_obj existing_version_obj then Some start
             else find_insert_position parse gt new_version_obj search_start matches))"

datatype error = InvalidVersion

text \<open>
  \<open>update_changelog\<close> on the texts of the two files it reads; the result is the text it
  writes, or the exception of \<open>Version(version.lstrip('v'))\<close>.
\<close>

definition update_changelog ::
  "(string \<Rightarrow> 'v option) \<Rightarrow> ('v \<Rightarrow> 'v \<Rightarrow> bool) \<Rightarrow> string \<Rightarrow> string \<Rightarrow> string \<Rightarrow> string \<Rightarrow> error + string" where
  "update_changelog parse gt content version date entries =
     (let changelog_entries = strip entries;
          new_section = ''## ['' @ version @ ''] - '' @ date @ [nl, nl] @ changelog_entries @ [nl, nl];
          matches = finditer_version 0 0 content;
          unreleased_match = search_unreleased 0 content;
          search_start = (case unreleased_match of Some e \<Rightarrow> e | None \<Rightarrow> 0)
      in
        case parse (lstrip_v version) of
          None \<Rightarrow> Inl InvalidVersion
        | Some new_version_obj \<Rightarrow>
            (case find_insert_position parse gt new_version_obj search_start matches of
               Some insert_position \<Rightarrow>
                 Inr (take insert_position content @ new_section @ drop insert_position content)
             | None \<Rightarrow>
                 (case unreleased_match of
                    Some insert_position \<Rightarrow>
                      if take 1 (drop insert_position content) \<noteq> [nl]
                      then Inr (take insert_position content @ [nl] @ new_section
                                @ drop insert_position content)
                      else Inr (take insert_position content @ new_section
                                @ drop insert_position content)
                  | None \<Rightarrow> Inr (new_section @ content))))"

text \<open>
  Modelled from the spec: \<open>packaging.version.Version\<close> is a library outside the
  repository.  The spec asks for a version, optionally behind a \<open>v\<close>, compared by the
  numbers of major.minor.patch and not as text.  The model follows the grammar and the
  sort key of the library (PEP 440): epoch, release, pre-release, post-release,
  development release and local version.
\<close>

definition lower_char :: "char \<Rightarrow> char" where
  "lower_char c =
     (let n = (of_char c :: nat) in if 65 \<le> n \<and> n \<le> 90 then char_of (n + 32) else c)"

definition lower :: "string \<Rightarrow> string" where
  "lower s = map lower_char s"

text \<open>\<open>int(ds)\<close> for a text of digits; 0 for the empty text (a number that is left out).\<close>

definition decimal :: "string \<Rightarrow> nat" where
  "decimal ds = foldl (\<lambda>acc c. 10 * acc + (of_char c - 48)) 0 ds"

record version =
  v_epoch :: nat
  v_release :: "nat list"
  v_pre :: "(nat \<times> nat) option"
  v_post :: "nat option"
  v_dev :: "nat option"
  v_local :: "(string + nat) list option"

text \<open>The separator \<open>[-_\.]\<close>, and the optional \<open>[-_\.]?\<close>: what follows it.\<close>

definition is_sep :: "char \<Rightarrow> bool" where
  "is_sep c = (c = CHR ''-'' \<or> c = CHR ''_'' \<or> c = CHR ''.'')"

definition skip_sep :: "string \<Rightarrow> string" where
  "skip_sep s = (case s of [] \<Rightarrow> [] | c # cs \<Rightarrow> if is_sep c then cs else s)"

text \<open>
  An alternative of words under \<open>re.IGNORECASE\<close>: the first word of the list that the
  text starts with, and what follows it.
\<close>

definition first_word :: "string list \<Rightarrow> string \<Rightarrow> (string \<times> string) option" where
  "first_word ws s =
     (case filter (\<lambda>w. match_ci w s \<noteq> None) ws of
        [] \<Rightarrow> None
      | w # _ \<Rightarrow> Some (w, drop (length w) s))"

text \<open>
  The release \<open>[0-9]+(?:\.[0-9]+)*\<close> on a text that starts with a digit: \<open>cur\<close> is the
  number that is being read, \<open>done\<close> the numbers in front of it.  A dot belongs to the
  release only when a digit follows.
\<close>

fun release_seg :: "nat \<Rightarrow> nat list \<Rightarrow> string \<Rightarrow> nat list \<times> string" where
  "release_seg cur done [] = (done @ [cur], [])"
| "release_seg cur done (c # cs) =
     (if isdigit c then release_seg (10 * cur + (of_char c - 48)) done cs
      else if c = CHR ''.'' \<and> (case cs of [] \<Rightarrow> False | d # _ \<Rightarrow> isdigit d)
      then release_seg 0 (done @ [cur]) cs
      else (done @ [cur], c # cs))"

text \<open>
  The pre-release \<open>[-_\.]?(alpha|a|beta|b|preview|pre|c|rc)[-_\.]?([0-9]+)?\<close>: its
  letter as a rank (\<open>a\<close> 0, \<open>b\<close> 1, \<open>rc\<close> 2) and its number, and what follows.
\<close>

definition pre_rank :: "string \<Rightarrow> nat" where
  "pre_rank w = (if w = ''alpha'' \<or> w = ''a'' then 0 else if w = ''beta'' \<or> w = ''b'' then 1 else 2)"

definition parse_pre :: "string \<Rightarrow> (nat \<times> nat) option \<times> string" where
  "parse_pre s =
     (case first_word [''alpha'', ''a'', ''beta'', ''b'', ''preview'', ''pre'', ''c'', ''rc''] (skip_sep s) of
        None \<Rightarrow> (None, s)
      | Some (w, r) \<Rightarrow>
          (Some (pre_rank w, decimal (takeWhile isdigit (skip_sep r))),
           dropWhile isdigit (skip_sep r)))"

text \<open>
  The post-release \<open>-([0-9]+)\<close> or \<open>[-_\.]?(post|rev|r)[-_\.]?([0-9]+)?\<close>: its number,
  and what follows.
\<close>

definition parse_post_word :: "string \<Rightarrow> nat option \<times> string" where
  "parse_post_word s =
     (case first_word [''post'', ''rev'', ''r''] (skip_sep s) of
        None \<Rightarrow> (None, s)
      | Some (w, r) \<Rightarrow>
          (Some (decimal (takeWhile isdigit (skip_sep r))), dropWhile isdigit (skip_sep r)))"

definition parse_post :: "string \<Rightarrow> nat option \<times> string" where
  "parse_post s =
     (case s of
        c # d # cs \<Rightarrow>
          if c = CHR ''-'' \<and> isdigit d
          then (Some (decimal (takeWhile isdigit (d # cs))), dropWhile isdigit (d # cs))
          else parse_post_word s
      | _ \<Rightarrow> parse_post_word s)"

text \<open>The development release \<open>[-_\.]?(dev)[-_\.]?([0-9]+)?\<close>.\<close>

definition parse_dev :: "string \<Rightarrow> nat option \<times> string" where
  "parse_dev s =
     (case first_word [''dev''] (skip_sep s) of
        None \<Rightarrow> (None, s)
      | Some (w, r) \<Rightarrow>
          (Some (decimal (takeWhile isdigit (skip_sep r))), dropWhile isdigit (skip_sep r)))"

text \<open>\<open>re.split(r'[\._-]', local)\<close>\<close>

fun split_sep :: "string \<Rightarrow> string list" where
  "split_sep [] = [[]]"
| "split_sep (c # cs) =
     (if is_sep c then [] # split_sep cs
      else (case split_sep cs of l # ls \<Rightarrow> (c # l) # ls | [] \<Rightarrow> [[c]]))"

definition is_alnum :: "char \<Rightarrow> bool" where
  "is_alnum c =
     (let n = (of_char c :: nat) in (48 \<le> n \<and> n \<le> 57) \<or> (65 \<le> n \<and> n \<le> 90) \<or> (97 \<le> n \<and> n \<le> 122))"

text \<open>
  The local version \<open>(?:\+([a-z0-9]+(?:[-_\.][a-z0-9]+)*))?\<close> in front of \<open>\s*$\<close>: the
  parts of the local version (a number for a part of digits, the part in lower case
  otherwise) and what follows; \<open>None\<close> when a \<open>+\<close> is there and the text behind it
  is no local version.
\<close>

definition parse_local :: "string \<Rightarrow> ((string + nat) list option \<times> string) option" where
  "parse_local s =
     (case s of
        [] \<Rightarrow> Some (None, [])
      | c # cs \<Rightarrow>
          if c = CHR ''+'' then
            (let body = takeWhile (\<lambda>x. is_alnum x \<or> is_sep x) cs;
                 parts = split_sep body
             in if list_all (\<lambda>p. p \<noteq> []) parts
                then Some (Some (map (\<lambda>p. if list_all isdigit p then Inr (decimal p) else Inl (lower p)) parts),
                           dropWhile (\<lambda>x. is_alnum x \<or> is_sep x) cs)
                else None)
          else Some (None, s))"

text \<open>
  The epoch \<open>(?:([0-9]+)!)?\<close>: its number (0 when it is left out) and what follows.
\<close>

definition parse_epoch :: "string \<Rightarrow> nat \<times> string" where
  "parse_epoch s =
     (if takeWhile isdigit s \<noteq> [] \<and> prefix ''!'' (dropWhile isdigit s)
      then (decimal (takeWhile isdigit s), drop 1 (dropWhile isdigit s))
      else (0, s))"

text \<open>\<open>Version(s)\<close>; \<open>None\<close> where the library raises \<open>InvalidVersion\<close>.\<close>

definition release_version :: "string \<Rightarrow> version option" where
  "release_version s =
     (let s1 = dropWhile isspace s;
          s2 = (case s1 of [] \<Rightarrow> [] | c # cs \<Rightarrow> if c = CHR ''v'' \<or> c = CHR ''V'' then cs else s1);
          (epoch, s3) = parse_epoch s2
      in case s3 of
           [] \<Rightarrow> None
         | d # _ \<Rightarrow>
             if \<not> isdigit d then None
             else
               (let (release, s4) = release_seg 0 [] s3;
                    (pre, s5) = parse_pre s4;
                    (post, s6) = parse_post s5;
                    (dev, s7) = parse_dev s6
                in case parse_local s7 of
                     None \<Rightarrow> None
                   | Some (local, s8) \<Rightarrow>
                       if list_all isspace s8
                       then Some \<lparr>v_epoch = epoch, v_release = release, v_pre = pre, v_post = post,
                                  v_dev = dev, v_local = local\<rparr>
                       else None))"

text \<open>The order of the sort keys: Python's order of tuples, from the left.\<close>

datatype cmp = LT | EQ | GT

definition cmp_nat :: "nat \<Rightarrow> nat \<Rightarrow> cmp" where
  "cmp_nat a b = (if a < b then LT else if a = b then EQ else GT)"

fun cmp_list :: "('a \<Rightarrow> 'a \<Rightarrow> cmp) \<Rightarrow> 'a list \<Rightarrow> 'a list \<Rightarrow> cmp" where
  "cmp_list f [] [] = EQ"
| "cmp_list f [] (y # ys) = LT"
| "cmp_list f (x # xs) [] = GT"
| "cmp_list f (x # xs) (y # ys) = (case f x y of EQ \<Rightarrow> cmp_list f xs ys | r \<Rightarrow> r)"

text \<open>
  The components of \<open>_cmpkey\<close> as lists of numbers whose order is the order of the
  library: the release without its trailing zeros; for the pre-release \<open>-Infinity\<close> as
  \<open>[0]\<close>, a pre-release as \<open>[1, rank, n]\<close> and \<open>Infinity\<close> as \<open>[2]\<close>; for the
  post-release \<open>-Infinity\<close> as \<open>[0]\<close> and a number as \<open>[1, n]\<close>; for the development
  release a number as \<open>[0, n]\<close> and \<open>Infinity\<close> as \<open>[1]\<close>.
\<close>

definition key_release :: "version \<Rightarrow> nat list" where
  "key_release v = rev (dropWhile (\<lambda>x. x = 0) (rev (v_release v)))"

definition key_pre :: "version \<Rightarrow> nat list" where
  "key_pre v =
     (if v_pre v = None \<and> v_post v = None \<and> v_dev v \<noteq> None then [0]
      else (case v_pre v of None \<Rightarrow> [2] | Some (l, n) \<Rightarrow> [1, l, n]))"

definition key_post :: "version \<Rightarrow> nat list" where
  "key_post v = (case v_post v of None \<Rightarrow> [0] | Some n \<Rightarrow> [1, n])"

definition key_dev :: "version \<Rightarrow> nat list" where
  "key_dev v = (case v_dev v of None \<Rightarrow> [1] | Some n \<Rightarrow> [0, n])"

text \<open>
  A part of a local version: a text is below a number, texts are in the order of their
  characters, numbers in their own.
\<close>

fun cmp_part :: "string + nat \<Rightarrow> string + nat \<Rightarrow> cmp" where
  "cmp_part (Inl a) (Inl b) = cmp_list cmp_nat (map of_char a) (map of_char b)"
| "cmp_part (Inl a) (Inr j) = LT"
| "cmp_part (Inr i) (Inl b) = GT"
| "cmp_part (Inr i) (Inr j) = cmp_nat i j"

fun cmp_local :: "(string + nat) list option \<Rightarrow> (string + nat) list option \<Rightarrow> cmp" where
  "cmp_local None None = EQ"
| "cmp_local None (Some b) = LT"
| "cmp_local (Some a) None = GT"
| "cmp_local (Some a) (Some b) = cmp_list cmp_part a b"

definition then_cmp :: "cmp \<Rightarrow> cmp \<Rightarrow> cmp" where
  "then_cmp a b = (case a of EQ \<Rightarrow> b | _ \<Rightarrow> a)"

definition cmp_version :: "version \<Rightarrow> version \<Rightarrow> cmp" where
  "cmp_version a b =
     then_cmp (cmp_nat (v_epoch a) (v_epoch b))
    (then_cmp (cmp_list cmp_nat (key_release a) (key_release b))
    (then_cmp (cmp_list cmp_nat (key_pre a) (key_pre b))
    (then_cmp (cmp_list cmp_nat (key_post a) (key_post b))
    (then_cmp (cmp_list cmp_nat (key_dev a) (key_dev b))
              (cmp_local (v_local a) (v_local b))))))"

text \<open>\<open>a > b\<close> on two versions.\<close>

definition release_gt :: "version \<Rightarrow> version \<Rightarrow> bool" where
  "release_gt a b = (cmp_version a b = GT)"

section \<open>Vocabulary of the properties\<close>

text \<open>
  A line that the loop of \<open>parse_release_notes\<close> takes as a heading of one of the six
  categories, and a line it takes as a heading of anything else.
\<close>

definition valid_heading :: "string \<Rightarrow> bool" where
  "valid_heading raw =
     (case category_match (strip raw) of None \<Rightarrow> False | Some g \<Rightarrow> strip g \<in> set VALID_CATEGORIES)"

definition invalid_heading :: "string \<Rightarrow> bool" where
  "invalid_heading raw =
     (case category_match (strip raw) of None \<Rightarrow> False | Some g \<Rightarrow> strip g \<notin> set VALID_CATEGORIES)"

text \<open>
  A line start of the body where the pattern of the Section Extractor matches: offset
  \<open>i\<close> is the start of the text or lies behind a line feed, and the pattern matches
  the text from there.
\<close>

definition heading_at :: "string \<Rightarrow> nat \<Rightarrow> bool" where
  "heading_at s i = ((i = 0 \<or> s ! (i - 1) = nl) \<and> match_section (drop i s) \<noteq> None)"

text \<open>
  The section that \<open>update_changelog\<close> writes, the offset where its scan of the headers
  starts, and the headers that can take the new section in front of them: at or behind
  that offset, with a version that parses and is below the new version.
\<close>

definition new_section :: "string \<Rightarrow> string \<Rightarrow> string \<Rightarrow> string" where
  "new_section version date entries =
     ''## ['' @ version @ ''] - '' @ date @ [nl, nl] @ strip entries @ [nl, nl]"

definition search_start :: "string \<Rightarrow> nat" where
  "search_start content = (case search_unreleased 0 content of Some e \<Rightarrow> e | None \<Rightarrow> 0)"



text \<open>
  A line as \<open>strip\<close> leaves it when something is left: not empty, no whitespace at
  its ends, no line feed.
\<close>

definition tidy :: "string \<Rightarrow> bool" where
  "tidy l = (l \<noteq> [] \<and> \<not> isspace (hd l) \<and> \<not> isspace (last l) \<and> nl \<notin> set l)"

section \<open>Properties\<close>

subsection \<open>Lines\<close>

lemma split_nl_not_Nil [simp]: "split_nl s \<noteq> []"
  by (induction s) (auto split: list.splits)

lemma split_nl_Cons_other:
  "c \<noteq> nl \<Longrightarrow> split_nl (c # cs) = (c # hd (split_nl cs)) # tl (split_nl cs)"
  by (cases "split_nl cs") simp_all

subsection \<open>The opt-out token\<close>

lemma upper_char_N: "upper_char c = CHR ''N'' \<longleftrightarrow> c = CHR ''n'' \<or> c = CHR ''N''"
  by (cases c) (auto simp: upper_char_def Let_def char_of_def bit_Suc_0_iff)

lemma upper_char_O: "upper_char c = CHR ''O'' \<longleftrightarrow> c = CHR ''o'' \<or> c = CHR ''O''"
  by (cases c) (auto simp: upper_char_def Let_def char_of_def bit_Suc_0_iff)

lemma upper_char_E: "upper_char c = CHR ''E'' \<longleftrightarrow> c = CHR ''e'' \<or> c = CHR ''E''"
  by (cases c) (auto simp: upper_char_def Let_def char_of_def bit_Suc_0_iff)

lemma upper_NONE:
  "upper s = ''NONE'' \<longleftrightarrow>
     (\<exists>a b c d. s = [a, b, c, d] \<and> (a = CHR ''n'' \<or> a = CHR ''N'') \<and> (b = CHR ''o'' \<or> b = CHR ''O'')
        \<and> (c = CHR ''n'' \<or> c = CHR ''N'') \<and> (d = CHR ''e'' \<or> d = CHR ''E''))"
proof -
  have "upper s = ''NONE'' \<longleftrightarrow>
      (\<exists>a b c d. s = [a, b, c, d] \<and> upper_char a = CHR ''N'' \<and> upper_char b = CHR ''O''
         \<and> upper_char c = CHR ''N'' \<and> upper_char d = CHR ''E'')"
    unfolding upper_def by (simp add: map_eq_Cons_conv) blast
  then show ?thesis by (simp only: upper_char_N upper_char_O upper_char_E)
qed

lemma opt_out_upper: "is_opt_out ''NONE''"
  by code_simp

lemma opt_out_lower: "is_opt_out ''none''"
  by code_simp

lemma opt_out_mixed: "is_opt_out ''NoNe''"
  by code_simp

lemma opt_out_padded: "is_opt_out ''  NONE  ''"
  by code_simp

lemma opt_out_comment: "is_opt_out ''<!-- x --> NONE''"
  by code_simp

lemma no_opt_out_substring: "\<not> is_opt_out ''See NONE below''"
  by code_simp

lemma no_opt_out_notes: "\<not> is_opt_out ''### Fixed\<newline>- x''"
  by code_simp

text \<open>
  C6.  \<open>is_opt_out\<close> holds exactly when the whole cleaned content is the word NONE in
  some mix of upper and lower case: four characters, an N, an O, an N and an E.  So
  \<open>NONE\<close>, \<open>none\<close>, \<open>NoNe\<close>, NONE between blanks and NONE behind a comment are opt-outs;
  a text that only contains NONE, and a text of a heading and a bullet, are not.
\<close>

theorem is_opt_out_whole_content:
  "(\<forall>content. is_opt_out content \<longleftrightarrow>
      (\<exists>a b c d. clean_content content = [a, b, c, d]
         \<and> (a = CHR ''n'' \<or> a = CHR ''N'') \<and> (b = CHR ''o'' \<or> b = CHR ''O'')
         \<and> (c = CHR ''n'' \<or> c = CHR ''N'') \<and> (d = CHR ''e'' \<or> d = CHR ''E'')))
   \<and> is_opt_out ''NONE''
   \<and> is_opt_out ''none''
   \<and> is_opt_out ''NoNe''
   \<and> is_opt_out ''  NONE  ''
   \<and> is_opt_out ''<!-- x --> NONE''
   \<and> \<not> is_opt_out ''See NONE below''
   \<and> \<not> is_opt_out ''### Fixed\<newline>- x''"
proof -
  have "\<forall>content. is_opt_out content \<longleftrightarrow>
      (\<exists>a b c d. clean_content content = [a, b, c, d]
         \<and> (a = CHR ''n'' \<or> a = CHR ''N'') \<and> (b = CHR ''o'' \<or> b = CHR ''O'')
         \<and> (c = CHR ''n'' \<or> c = CHR ''N'') \<and> (d = CHR ''e'' \<or> d = CHR ''E''))"
    unfolding is_opt_out_def by (simp only: upper_NONE) simp
  then show ?thesis
    by (intro conjI)
      (assumption, rule opt_out_upper, rule opt_out_lower, rule opt_out_mixed, rule opt_out_padded,
       rule opt_out_comment, rule no_opt_out_substring, rule no_opt_out_notes)
qed

subsection \<open>A heading at the end of the body\<close>

lemma match_section_Nil [simp]: "match_section [] = None"
  by (simp add: match_section_def match_lit_def)

lemma search_section_None_iff:
  "search_section bol s = None \<longleftrightarrow>
     (\<forall>p r. s = p @ r \<and> (if p = [] then bol else last p = nl) \<longrightarrow> match_section r = None)"
proof (induction s arbitrary: bol)
  case Nil
  show ?case by simp
next
  case (Cons c cs)
  have "search_section bol (c # cs) = None \<longleftrightarrow>
      (bol \<longrightarrow> match_section (c # cs) = None) \<and> search_section (c = nl) cs = None"
    by (auto split: option.splits)
  also have "\<dots> \<longleftrightarrow> (bol \<longrightarrow> match_section (c # cs) = None)
      \<and> (\<forall>p r. cs = p @ r \<and> (if p = [] then c = nl else last p = nl) \<longrightarrow> match_section r = None)"
    by (simp only: Cons.IH)
  also have "\<dots> \<longleftrightarrow>
      (\<forall>p r. c # cs = p @ r \<and> (if p = [] then bol else last p = nl) \<longrightarrow> match_section r = None)"
    (is "?L \<longleftrightarrow> ?R")
  proof
    assume l: ?L
    show ?R
    proof (intro allI impI)
      fix p r
      assume a: "c # cs = p @ r \<and> (if p = [] then bol else last p = nl)"
      show "match_section r = None"
      proof (cases p)
        case Nil
        then show ?thesis using a l by simp
      next
        case (Cons x p')
        then have "cs = p' @ r" "if p' = [] then c = nl else last p' = nl"
          using a by (auto split: if_splits)
        then show ?thesis using l by blast
      qed
    qed
  next
    assume r: ?R
    have "bol \<longrightarrow> match_section (c # cs) = None"
      using r [rule_format, of "[]" "c # cs"] by simp
    moreover have "match_section r' = None"
      if "cs = p @ r'" "if p = [] then c = nl else last p = nl" for p r'
      using r [rule_format, of "c # p" r'] that by (auto split: if_splits)
    ultimately show ?L by blast
  qed
  finally show ?case .
qed

lemma split_at_heading:
  "(\<exists>p r. s = p @ r \<and> (if p = [] then True else last p = nl) \<and> match_section r \<noteq> None)
     \<longleftrightarrow> (\<exists>i\<le>length s. heading_at s i)"
proof
  assume "\<exists>p r. s = p @ r \<and> (if p = [] then True else last p = nl) \<and> match_section r \<noteq> None"
  then obtain p r where pr: "s = p @ r" "if p = [] then True else last p = nl" "match_section r \<noteq> None"
    by blast
  have "heading_at s (length p)"
  proof (cases "p = []")
    case True
    then show ?thesis using pr by (simp add: heading_at_def)
  next
    case False
    then have "s ! (length p - 1) = last p"
      using pr(1) by (simp add: nth_append last_conv_nth)
    then show ?thesis using pr False by (simp add: heading_at_def)
  qed
  moreover have "length p \<le> length s" using pr(1) by simp
  ultimately show "\<exists>i\<le>length s. heading_at s i" by blast
next
  assume "\<exists>i\<le>length s. heading_at s i"
  then obtain i where i: "i \<le> length s" "heading_at s i" by blast
  have "s = take i s @ drop i s" by simp
  moreover have "if take i s = [] then True else last (take i s) = nl"
  proof (cases "i = 0")
    case True
    then show ?thesis by simp
  next
    case False
    then have "take i s \<noteq> []" using i(1) by (cases s) auto
    moreover have "last (take i s) = s ! (i - 1)"
    proof -
      have "last (take i s) = take i s ! (length (take i s) - 1)"
        using \<open>take i s \<noteq> []\<close> by (rule last_conv_nth)
      also have "length (take i s) = i" using i(1) by simp
      also have "take i s ! (i - 1) = s ! (i - 1)" using False by simp
      finally show ?thesis .
    qed
    ultimately show ?thesis using i(2) False by (simp add: heading_at_def)
  qed
  moreover have "match_section (drop i s) \<noteq> None" using i(2) by (simp add: heading_at_def)
  ultimately show "\<exists>p r. s = p @ r \<and> (if p = [] then True else last p = nl) \<and> match_section r \<noteq> None"
    by blast
qed

lemma search_section_heading_at:
  "search_section True s = None \<longleftrightarrow> \<not> (\<exists>i\<le>length s. heading_at s i)"
  unfolding split_at_heading [symmetric] search_section_None_iff by auto

lemma final_heading_no_match: "match_section ''## Release Notes'' = None"
  by code_simp

lemma no_heading_in_final_line:
  assumes "length pre \<le> i" "i \<le> length (pre @ ''## Release Notes'')"
  shows "\<not> heading_at (pre @ ''## Release Notes'') i"
proof (cases "i = length pre")
  case True
  then show ?thesis using final_heading_no_match by (simp add: heading_at_def)
next
  case False
  then have gt: "length pre < i" using assms(1) by simp
  then have ge: "\<not> i - 1 < length pre" by arith
  have "(pre @ ''## Release Notes'') ! (i - 1) = ''## Release Notes'' ! (i - 1 - length pre)"
    by (simp only: nth_append ge if_False)
  moreover have "i - 1 - length pre < length ''## Release Notes''" using gt assms(2) by simp
  ultimately have "(pre @ ''## Release Notes'') ! (i - 1) \<in> set ''## Release Notes''"
    by (metis nth_mem)
  then have "(pre @ ''## Release Notes'') ! (i - 1) \<noteq> nl" by auto
  then show ?thesis using gt by (simp add: heading_at_def)
qed

text \<open>
  C10 (as amended).  The pattern of the Section Extractor wants whitespace behind
  \<open>Notes\<close>: on a text that starts with \<open>## Release Notes\<close> it matches exactly when a
  whitespace character follows.  So the line \<open>## Release Notes\<close> at the very end of a
  body is no match, and for a body that ends with it the Extractor returns \<open>None\<close>
  exactly when the pattern matches at no line start before that line; the Validator then
  reports that the section was not found.
\<close>

theorem extract_final_heading_line:
  "(extract_release_notes_section (pre @ ''## Release Notes'') = None
      \<longleftrightarrow> \<not> list_ex (heading_at (pre @ ''## Release Notes'')) [0..<length pre])
   \<and> (\<not> list_ex (heading_at (pre @ ''## Release Notes'')) [0..<length pre] \<longrightarrow>
        validate_release_notes (pre @ ''## Release Notes'') = (False, msg_not_found, None))
   \<and> (\<forall>rest. match_section (''## Release Notes'' @ rest) \<noteq> None \<longleftrightarrow> rest \<noteq> [] \<and> isspace (hd rest))"
proof -
  let ?s = "pre @ ''## Release Notes''"
  have eq: "(\<exists>i\<le>length ?s. heading_at ?s i) \<longleftrightarrow> (\<exists>i<length pre. heading_at ?s i)"
  proof
    assume "\<exists>i\<le>length ?s. heading_at ?s i"
    then obtain i where i: "i \<le> length ?s" "heading_at ?s i" by blast
    then have "i < length pre" using no_heading_in_final_line [of pre i] by force
    then show "\<exists>i<length pre. heading_at ?s i" using i(2) by blast
  next
    assume "\<exists>i<length pre. heading_at ?s i"
    then obtain i where i: "i < length pre" "heading_at ?s i" by blast
    have "i \<le> length ?s" using i(1) by simp
    then show "\<exists>i\<le>length ?s. heading_at ?s i" using i(2) by blast
  qed
  have "search_section True ?s = None \<longleftrightarrow> \<not> (\<exists>i<length pre. heading_at ?s i)"
    by (simp only: search_section_heading_at eq)
  also have "\<dots> \<longleftrightarrow> \<not> list_ex (heading_at ?s) [0..<length pre]"
    by (auto simp: list_ex_iff)
  finally have s: "search_section True ?s = None \<longleftrightarrow> \<not> list_ex (heading_at ?s) [0..<length pre]" .
  have a: "extract_release_notes_section ?s = None \<longleftrightarrow> \<not> list_ex (heading_at ?s) [0..<length pre]"
    unfolding s [symmetric] by (simp add: extract_release_notes_section_def split: option.splits)
  have b: "validate_release_notes ?s = (False, msg_not_found, None)"
    if "\<not> list_ex (heading_at ?s) [0..<length pre]"
    using that a by (simp add: validate_release_notes_def)
  have c: "match_section (''## Release Notes'' @ rest) \<noteq> None \<longleftrightarrow> rest \<noteq> [] \<and> isspace (hd rest)"
    for rest
    by (cases rest)
      (simp_all add: match_section_def match_lit_def match_ws1_def match_ci_def upper_def
        upper_char_def isspace_def)
  show ?thesis using a b c by blast
qed

lemma no_earlier_heading_example:
  "\<not> list_ex (heading_at (''## Description\<newline>This PR fixes a bug\<newline>\<newline>'' @ ''## Release Notes''))
        [0..<length ''## Description\<newline>This PR fixes a bug\<newline>\<newline>'']"
  by code_simp

theorem extract_final_heading_line_witness:
  "extract_release_notes_section (''## Description\<newline>This PR fixes a bug\<newline>\<newline>'' @ ''## Release Notes'') = None
   \<and> validate_release_notes (''## Description\<newline>This PR fixes a bug\<newline>\<newline>'' @ ''## Release Notes'')
       = (False, msg_not_found, None)"
  using extract_final_heading_line [of "''## Description\<newline>This PR fixes a bug\<newline>\<newline>''"] no_earlier_heading_example
  by blast

text \<open>
  A body that ends with the heading line and has the heading on an earlier line too: the
  Extractor returns the section of the earlier heading and the Validator accepts it.
\<close>

theorem extract_final_heading_counterexample:
  "extract_release_notes_section ''## Release Notes\<newline>### Fixed\<newline>- x\<newline>## Release Notes''
     = Some ''### Fixed\<newline>- x''
   \<and> validate_release_notes ''## Release Notes\<newline>### Fixed\<newline>- x\<newline>## Release Notes''
     = (True, msg_valid, Some [(''Fixed'', [''x''])])"
  by code_simp

subsection \<open>A version below every version of the changelog\<close>

text \<open>
  C1.  On the changelog of an Unreleased heading and the one version v1.0.0, the update
  with v0.9.0 finds no header below the new version and takes the branch of the
  Unreleased heading: the new section is written right behind that heading, above v1.0.0.
\<close>

theorem update_changelog_lower_version:
  "update_changelog release_version release_gt
     ''## [Unreleased]\<newline>\<newline>## [v1.0.0] - 2024-01-01\<newline>\<newline>- first\<newline>''
     ''v0.9.0'' ''2024-02-01'' ''- second\<newline>''
   = Inr ''## [Unreleased]\<newline>\<newline>\<newline>## [v0.9.0] - 2024-02-01\<newline>\<newline>- second\<newline>\<newline>## [v1.0.0] - 2024-01-01\<newline>\<newline>- first\<newline>''"
  by code_simp

subsection \<open>Headings that are no category\<close>

lemma category_match_Nil [simp]: "category_match [] = None"
  by (simp add: category_match_def match_lit_def)

lemma parse_line_invalid: "invalid_heading h \<Longrightarrow> parse_line st h = (fst st, None)"
  by (auto simp: invalid_heading_def parse_line_def Let_def split: option.splits)

lemma parse_line_no_category: "\<not> valid_heading l \<Longrightarrow> parse_line (cats, None) l = (cats, None)"
  by (auto simp: valid_heading_def parse_line_def Let_def split: option.splits)

lemma parse_lines_no_category:
  "list_all (\<lambda>l. \<not> valid_heading l) ls \<Longrightarrow> foldl parse_line (cats, None) ls = (cats, None)"
  by (induction ls) (simp_all add: parse_line_no_category)

lemma parse_fixed_invalid_added: "parse_release_notes ''### Fixed\<newline>- a\<newline>### InvalidName\<newline>- b\<newline>### Added\<newline>- c''
     = [(''Fixed'', [''a'']), (''Added'', [''c''])]"
  by code_simp

text \<open>
  C3.  A heading that names none of the six categories sets the current category to
  none and leaves the mapping as it is; up to the next valid heading no line changes the
  mapping, so these lines can be taken out of the text without any change of the result.
  For the headings Fixed, InvalidName, Added each entry is under its own valid heading
  and the bullet under InvalidName is nowhere.
\<close>

theorem invalid_heading_resets:
  assumes "invalid_heading h" and "list_all (\<lambda>l. \<not> valid_heading l) ls"
  shows "parse_line st h = (fst st, None)
    \<and> foldl parse_line st (h # ls) = (fst st, None)
    \<and> foldl parse_line st0 (pre @ h # ls @ post) = foldl parse_line st0 (pre @ h # post)
    \<and> parse_release_notes ''### Fixed\<newline>- a\<newline>### InvalidName\<newline>- b\<newline>### Added\<newline>- c''
        = [(''Fixed'', [''a'']), (''Added'', [''c''])]"
proof -
  have a: "parse_line s h = (fst s, None)" for s
    using assms(1) by (rule parse_line_invalid)
  have b: "foldl parse_line s (h # ls) = (fst s, None)" for s
    using a [of s] parse_lines_no_category [OF assms(2)] by simp
  have c: "foldl parse_line st0 (pre @ h # ls @ post) = foldl parse_line st0 (pre @ h # post)"
    using b [of "foldl parse_line st0 pre"] a [of "foldl parse_line st0 pre"] by simp
  show ?thesis using a b c parse_fixed_invalid_added by blast
qed

theorem invalid_heading_resets_witness:
  "invalid_heading ''### InvalidName'' \<and> list_all (\<lambda>l. \<not> valid_heading l) [''- b'', ''* c'']
   \<and> foldl parse_line ([(''Fixed'', [''a''])], Some ''Fixed'') [''### InvalidName'', ''- b'', ''* c'']
       = ([(''Fixed'', [''a''])], None)"
proof -
  have h1: "invalid_heading ''### InvalidName''" by code_simp
  have h2: "list_all (\<lambda>l. \<not> valid_heading l) [''- b'', ''* c'']" by code_simp
  have "foldl parse_line ([(''Fixed'', [''a''])], Some ''Fixed'') [''### InvalidName'', ''- b'', ''* c'']
       = (fst ([(''Fixed'', [''a''])], Some ''Fixed''), None)"
    using invalid_heading_resets [OF h1 h2, of "([(''Fixed'', [''a''])], Some ''Fixed'')"]
    by (rule conjunct1 [OF conjunct2])
  then have r: "foldl parse_line ([(''Fixed'', [''a''])], Some ''Fixed'') [''### InvalidName'', ''- b'', ''* c'']
       = ([(''Fixed'', [''a''])], None)"
    by (simp only: fst_conv)
  show ?thesis by (intro conjI h1 h2 r)
qed

subsection \<open>Categories without entries\<close>

lemma opt_out_no_categories: "is_opt_out rn \<Longrightarrow> parse_release_notes rn = []"
proof -
  assume "is_opt_out rn"
  then obtain a b c d where cc: "clean_content rn = [a, b, c, d]"
    and l: "a = CHR ''n'' \<or> a = CHR ''N''" "b = CHR ''o'' \<or> b = CHR ''O''"
      "c = CHR ''n'' \<or> c = CHR ''N''" "d = CHR ''e'' \<or> d = CHR ''E''"
    unfolding is_opt_out_def upper_NONE by blast
  have nn: "a \<noteq> nl" "b \<noteq> nl" "c \<noteq> nl" "d \<noteq> nl" using l by auto
  have sp: "split_nl [a, b, c, d] = [[a, b, c, d]]" using nn by simp
  have ns: "\<not> isspace a" "\<not> isspace d" using l by (auto simp: isspace_def)
  have st: "strip [a, b, c, d] = [a, b, c, d]" using ns by (simp add: strip_def lstrip_def rstrip_def)
  have "parse_line ([], None) [a, b, c, d] = ([], None)"
    using l(1) by (auto simp: parse_line_def st Let_def category_match_def match_lit_def)
  then show ?thesis by (simp only: parse_release_notes_def cc sp) simp
qed

text \<open>
  C8.  When the section of a body parses to a mapping with a category that has no
  entries, the Validator returns invalid, no mapping, and the message
  \<open>Categories ... have no entries\<close> with the names of all the empty categories, joined
  by a comma and a space, in the order of the mapping.
\<close>

theorem validate_empty_category:
  assumes "extract_release_notes_section body = Some rn"
    and "(c, []) \<in> set (parse_release_notes rn)"
  shows "validate_release_notes body =
      (False, ''Categories '' @ join '', '' (map fst (filter (\<lambda>ce. snd ce = []) (parse_release_notes rn)))
              @ '' have no entries'', None)
     \<and> c \<in> set (map fst (filter (\<lambda>ce. snd ce = []) (parse_release_notes rn)))"
proof -
  have ne: "parse_release_notes rn \<noteq> []" using assms(2) by auto
  then have no: "\<not> is_opt_out rn" using opt_out_no_categories by blast
  have mem: "c \<in> set (map fst (filter (\<lambda>ce. snd ce = []) (parse_release_notes rn)))"
    using assms(2) by force
  then have "map fst (filter (\<lambda>ce. snd ce = []) (parse_release_notes rn)) \<noteq> []"
    by (auto simp: filter_empty_conv)
  moreover have "(\<lambda>(cat, entries). entries = []) = (\<lambda>ce :: string \<times> string list. snd ce = [])"
    by auto
  ultimately show ?thesis
    using assms(1) ne no mem by (simp add: validate_release_notes_def Let_def)
qed

theorem validate_empty_category_witness:
  "validate_release_notes ''## Release Notes\<newline>### Fixed\<newline>\<newline>### Added\<newline>- x\<newline>''
     = (False, ''Categories Fixed have no entries'', None)"
proof -
  have h1: "extract_release_notes_section ''## Release Notes\<newline>### Fixed\<newline>\<newline>### Added\<newline>- x\<newline>''
      = Some ''### Fixed\<newline>\<newline>### Added\<newline>- x''"
    by code_simp
  have p: "parse_release_notes ''### Fixed\<newline>\<newline>### Added\<newline>- x'' = [(''Fixed'', []), (''Added'', [''x''])]"
    by code_simp
  have h2: "(''Fixed'', []) \<in> set (parse_release_notes ''### Fixed\<newline>\<newline>### Added\<newline>- x'')"
    by (simp only: p) simp
  show ?thesis
    using validate_empty_category [OF h1 h2] by (simp only: p) simp
qed

subsection \<open>The insertion point\<close>









subsection \<open>The cleaner on lines\<close>

lemma isspace_nl [simp]: "isspace nl"
  by (simp add: isspace_def)

lemma blank_run_end_Nil [simp]: "blank_run_end [] = None"
  by (simp add: blank_run_end_def)

lemma blank_run_end_Cons:
  "blank_run_end (c # cs) =
     (if isspace c
      then (case blank_run_end cs of Some r \<Rightarrow> Some r | None \<Rightarrow> if c = nl then Some cs else None)
      else None)"
proof (cases "isspace c")
  case False
  then show ?thesis by (simp add: blank_run_end_def)
next
  case True
  let ?run = "takeWhile isspace cs"
  show ?thesis
  proof (cases "nl \<in> set ?run")
    case in_run: True
    have tw: "takeWhile (\<lambda>c. c \<noteq> nl) (rev ?run @ [c]) = takeWhile (\<lambda>c. c \<noteq> nl) (rev ?run)"
      using in_run by (intro takeWhile_append1 [of nl]) auto
    have "length (takeWhile (\<lambda>c. c \<noteq> nl) (rev ?run)) \<le> length ?run"
      using length_takeWhile_le [of "\<lambda>c. c \<noteq> nl" "rev ?run"] by simp
    then have "Suc (length ?run) - length (takeWhile (\<lambda>c. c \<noteq> nl) (rev ?run))
        = Suc (length ?run - length (takeWhile (\<lambda>c. c \<noteq> nl) (rev ?run)))"
      by arith
    then show ?thesis using True in_run tw by (simp add: blank_run_end_def Let_def)
  next
    case not_in: False
    have "takeWhile (\<lambda>c. c \<noteq> nl) (rev ?run @ [c]) = rev ?run @ takeWhile (\<lambda>c. c \<noteq> nl) [c]"
      using not_in by (intro takeWhile_append2) auto
    then show ?thesis using True not_in by (auto simp: blank_run_end_def Let_def)
  qed
qed

lemma collapse_blank_line: "nl \<notin> set l \<Longrightarrow> collapse_blank (l @ r) = l @ collapse_blank r"
  by (induction l) auto

lemma strip_ends:
  "strip l = [] \<or> (\<not> isspace (hd (strip l)) \<and> \<not> isspace (last (strip l)))"
proof (cases "strip l = []")
  case True
  then show ?thesis by simp
next
  case False
  let ?d = "dropWhile isspace l"
  let ?e = "dropWhile isspace (rev ?d)"
  have s: "strip l = rev ?e" by (simp add: strip_def lstrip_def rstrip_def)
  then have e: "?e \<noteq> []" using False by simp
  have d: "?d \<noteq> []"
  proof
    assume a: "?d = []"
    have "?e = []" unfolding a by simp
    then show False using e by simp
  qed
  have "last (strip l) = hd ?e" using s e by (simp add: last_rev)
  then have l: "\<not> isspace (last (strip l))" using e hd_dropWhile [of isspace "rev ?d"] by simp
  have "hd (strip l) = last ?e" using s e by (simp add: hd_rev)
  also have "\<dots> = last (rev ?d)" using e by (metis last_appendR takeWhile_dropWhile_id)
  also have "\<dots> = hd ?d" using d by (simp add: last_rev)
  finally have "\<not> isspace (hd (strip l))" using d hd_dropWhile [of isspace l] by simp
  then show ?thesis using l by simp
qed

lemma set_strip: "set (strip l) \<subseteq> set l"
proof -
  have "set (strip l) \<subseteq> set (dropWhile isspace l)"
    using set_dropWhileD [of _ isspace "rev (dropWhile isspace l)"]
    by (auto simp: strip_def lstrip_def rstrip_def)
  then show ?thesis using set_dropWhileD [of _ isspace l] by blast
qed

lemma length_strip: "length (strip l) \<le> length l"
proof -
  have "length (strip l) \<le> length (dropWhile isspace l)"
    using length_dropWhile_le [of isspace "rev (dropWhile isspace l)"]
    by (simp add: strip_def lstrip_def rstrip_def)
  then show ?thesis using length_dropWhile_le [of isspace l] by simp
qed

lemma strip_tidy: "tidy l \<Longrightarrow> strip l = l"
proof -
  assume t: "tidy l"
  then have "dropWhile isspace l = l" by (cases l) (auto simp: tidy_def)
  moreover have "dropWhile isspace (rev l) = rev l"
    using t by (cases "rev l") (auto simp: tidy_def last_rev [symmetric] simp del: last_rev)
  ultimately show ?thesis by (simp add: strip_def lstrip_def rstrip_def)
qed

lemma split_nl_lines: "l \<in> set (split_nl s) \<Longrightarrow> nl \<notin> set l"
proof (induction s arbitrary: l)
  case Nil
  then show ?case by simp
next
  case (Cons c cs)
  show ?case
  proof (cases "c = nl")
    case True
    then show ?thesis using Cons by auto
  next
    case False
    then have sp: "split_nl (c # cs) = (c # hd (split_nl cs)) # tl (split_nl cs)"
      by (rule split_nl_Cons_other)
    have "hd (split_nl cs) \<in> set (split_nl cs)" by simp
    then have "nl \<notin> set (hd (split_nl cs))" by (rule Cons.IH)
    moreover have "l' \<in> set (tl (split_nl cs)) \<Longrightarrow> nl \<notin> set l'" for l'
      using Cons.IH [of l'] by (auto dest: list.set_sel(2) [rotated])
    ultimately show ?thesis using Cons.prems sp False by auto
  qed
qed

lemma join_split_nl: "join_nl (split_nl s) = s"
proof (induction s)
  case Nil
  show ?case by simp
next
  case (Cons c cs)
  obtain l ls where sp: "split_nl cs = l # ls" by (cases "split_nl cs") auto
  show ?case using Cons sp by (cases ls) auto
qed

lemma split_nl_line: "nl \<notin> set l \<Longrightarrow> split_nl l = [l]"
  by (induction l) auto

lemma split_nl_append_line: "nl \<notin> set l \<Longrightarrow> split_nl (l @ nl # r) = l # split_nl r"
  by (induction l) auto

lemma split_join_nl:
  "F \<noteq> [] \<Longrightarrow> list_all (\<lambda>l. nl \<notin> set l) F \<Longrightarrow> split_nl (join_nl F) = F"
proof (induction F)
  case Nil
  then show ?case by simp
next
  case (Cons l F)
  show ?case
  proof (cases F)
    case Nil
    then show ?thesis using Cons.prems by (simp add: split_nl_line)
  next
    case (Cons v va)
    then show ?thesis using Cons.IH Cons.prems by (simp add: split_nl_append_line)
  qed
qed

lemma blank_run_end_tidy: "tidy l \<Longrightarrow> blank_run_end (l @ r) = None"
  by (cases l) (simp_all add: tidy_def blank_run_end_Cons)

lemma blank_run_end_single: "l = [] \<or> tidy l \<Longrightarrow> blank_run_end l = None"
  using blank_run_end_tidy [of l "[]"] by auto

lemma blank_run_end_join:
  "list_all (\<lambda>l. l = [] \<or> tidy l) (l2 # L) \<Longrightarrow>
     blank_run_end (join_nl ([] # l2 # L)) = Some (join_nl (dropWhile (\<lambda>l. l = []) (l2 # L)))"
proof (induction L arbitrary: l2)
  case Nil
  then have "blank_run_end l2 = None" by (intro blank_run_end_single) simp
  then show ?case by (simp add: blank_run_end_Cons)
next
  case (Cons l3 L)
  show ?case
  proof (cases "l2 = []")
    case True
    have "blank_run_end (join_nl ([] # l3 # L)) = Some (join_nl (dropWhile (\<lambda>l. l = []) (l3 # L)))"
      using Cons.prems by (intro Cons.IH) simp
    then show ?thesis using True by (simp add: blank_run_end_Cons)
  next
    case False
    then have "tidy l2" using Cons.prems by simp
    then have "blank_run_end (l2 @ nl # join_nl (l3 # L)) = None" by (rule blank_run_end_tidy)
    then show ?thesis using False by (simp add: blank_run_end_Cons)
  qed
qed

lemma collapse_blank_nl_join:
  assumes "list_all (\<lambda>l. l = [] \<or> tidy l) L" and "L \<noteq> []"
  shows "collapse_blank (nl # join_nl L) = nl # collapse_blank (join_nl (dropWhile (\<lambda>l. l = []) L))"
proof -
  obtain l L' where L: "L = l # L'" using assms(2) by (cases L) auto
  show ?thesis
  proof (cases "l = []")
    case True
    show ?thesis
    proof (cases L')
      case Nil
      then show ?thesis using L True by simp
    next
      case (Cons l2 L'')
      have "blank_run_end (join_nl ([] # l2 # L'')) = Some (join_nl (dropWhile (\<lambda>l. l = []) (l2 # L'')))"
        using assms(1) L Cons by (intro blank_run_end_join) simp
      then show ?thesis using L True Cons by simp
    qed
  next
    case False
    then have t: "tidy l" using assms(1) L by simp
    have "blank_run_end (join_nl L) = None"
    proof (cases L')
      case Nil
      then show ?thesis using L t blank_run_end_tidy [of l "[]"] by simp
    next
      case (Cons l2 L'')
      then show ?thesis using L t blank_run_end_tidy [of l "nl # join_nl (l2 # L'')"] by simp
    qed
    then show ?thesis using L False by simp
  qed
qed

lemma filter_dropWhile_empty:
  "filter (\<lambda>l. l \<noteq> []) (dropWhile (\<lambda>l. l = []) L) = filter (\<lambda>l. l \<noteq> []) L"
  by (induction L) auto

lemma dropWhile_empty_shape:
  "dropWhile (\<lambda>l. l = []) L = [] \<or> hd (dropWhile (\<lambda>l. l = []) L) \<noteq> []"
  using hd_dropWhile [of "\<lambda>l. l = []" L] by blast

lemma last_dropWhile_empty:
  "dropWhile (\<lambda>l. l = []) L \<noteq> [] \<Longrightarrow> last (dropWhile (\<lambda>l. l = []) L) = last L"
  by (metis last_appendR takeWhile_dropWhile_id)

lemma collapse_blank_join:
  "list_all (\<lambda>l. l = [] \<or> tidy l) L \<Longrightarrow> L \<noteq> [] \<Longrightarrow> hd L \<noteq> [] \<Longrightarrow>
     collapse_blank (join_nl L) = join_nl (filter (\<lambda>l. l \<noteq> []) L) @ (if last L = [] then [nl] else [])"
proof (induction "length L" arbitrary: L rule: less_induct)
  case less
  obtain l L' where L: "L = l # L'" using less.prems(2) by (cases L) auto
  have t: "tidy l" and l: "l \<noteq> []" using less.prems L by auto
  then have n: "nl \<notin> set l" by (simp add: tidy_def)
  show ?case
  proof (cases "L' = []")
    case True
    then show ?thesis using L l collapse_blank_line [OF n, of "[]"] by simp
  next
    case False
    let ?M = "dropWhile (\<lambda>l. l = []) L'"
    have st: "list_all (\<lambda>l. l = [] \<or> tidy l) L'" using less.prems(1) L by simp
    have "join_nl L = l @ nl # join_nl L'" using L False by (cases L') auto
    then have "collapse_blank (join_nl L) = l @ collapse_blank (nl # join_nl L')"
      using collapse_blank_line [OF n] by simp
    also have "\<dots> = l @ nl # collapse_blank (join_nl ?M)"
      using collapse_blank_nl_join [OF st False] by simp
    finally have c: "collapse_blank (join_nl L) = l @ nl # collapse_blank (join_nl ?M)" .
    have fl: "filter (\<lambda>l. l \<noteq> []) L = l # filter (\<lambda>l. l \<noteq> []) ?M"
      using L l by (simp add: filter_dropWhile_empty)
    have lastL: "last L = last L'" using L False by simp
    show ?thesis
    proof (cases "?M = []")
      case True
      then have "\<forall>x\<in>set L'. x = []" by (simp add: dropWhile_eq_Nil_conv)
      then have "last L' = []" using False by (meson last_in_set)
      then show ?thesis using c fl True lastL by simp
    next
      case M: False
      have hd: "hd ?M \<noteq> []" using dropWhile_empty_shape [of L'] M by blast
      have stM: "list_all (\<lambda>l. l = [] \<or> tidy l) ?M"
        using st by (metis append_take_drop_id list_all_append takeWhile_dropWhile_id)
      have "length ?M < length L" using L length_dropWhile_le [of "\<lambda>l. l = []" L'] by simp
      then have ih: "collapse_blank (join_nl ?M)
          = join_nl (filter (\<lambda>l. l \<noteq> []) ?M) @ (if last ?M = [] then [nl] else [])"
        using less.hyps stM M hd by blast
      have "hd ?M \<in> set (filter (\<lambda>l. l \<noteq> []) ?M)" using M hd by simp
      then obtain f F where F: "filter (\<lambda>l. l \<noteq> []) ?M = f # F"
        by (cases "filter (\<lambda>l. l \<noteq> []) ?M") auto
      have "last ?M = last L" using last_dropWhile_empty [OF M] lastL by simp
      then show ?thesis using c fl ih F by simp
    qed
  qed
qed

lemma join_tidy:
  "F \<noteq> [] \<Longrightarrow> list_all tidy F \<Longrightarrow>
     join_nl F \<noteq> [] \<and> \<not> isspace (hd (join_nl F)) \<and> \<not> isspace (last (join_nl F))"
proof (induction F)
  case Nil
  then show ?case by simp
next
  case (Cons l F)
  show ?case
  proof (cases F)
    case Nil
    then show ?thesis using Cons.prems by (simp add: tidy_def)
  next
    case (Cons v va)
    then have "join_nl F \<noteq> [] \<and> \<not> isspace (last (join_nl F))"
      using Cons.IH Cons.prems by simp
    then show ?thesis using Cons Cons.prems(2) by (auto simp: tidy_def)
  qed
qed

lemma strip_pad:
  assumes "J \<noteq> []" "\<not> isspace (hd J)" "\<not> isspace (last J)" "list_all isspace p" "list_all isspace q"
  shows "strip (p @ J @ q) = J"
proof -
  have a: "dropWhile isspace (p @ J @ q) = J @ q"
    using assms(1,2,4) by (cases J) (auto simp: dropWhile_append list_all_iff)
  have "dropWhile isspace (rev q @ rev J) = rev J"
    using assms(1,3,5) by (cases "rev J") (auto simp: dropWhile_append list_all_iff last_rev [symmetric] simp del: last_rev)
  then show ?thesis using a by (simp add: strip_def lstrip_def rstrip_def)
qed

lemma clean_lines:
  assumes "list_all (\<lambda>l. l = [] \<or> tidy l) L" and "L \<noteq> []"
  shows "strip (collapse_blank (join_nl L)) = join_nl (filter (\<lambda>l. l \<noteq> []) L)"
proof -
  let ?M = "dropWhile (\<lambda>l. l = []) L"
  have fM: "filter (\<lambda>l. l \<noteq> []) ?M = filter (\<lambda>l. l \<noteq> []) L" by (rule filter_dropWhile_empty)
  have stM: "list_all (\<lambda>l. l = [] \<or> tidy l) ?M"
    using assms(1) by (metis append_take_drop_id list_all_append takeWhile_dropWhile_id)
  have pre: "\<exists>p. list_all isspace p \<and> collapse_blank (join_nl L) = p @ collapse_blank (join_nl ?M)"
  proof (cases "hd L = []")
    case False
    then have "?M = L" using assms(2) by (cases L) auto
    then show ?thesis by (intro exI [of _ "[]"]) simp
  next
    case True
    then obtain L' where L: "L = [] # L'" using assms(2) by (cases L) auto
    show ?thesis
    proof (cases "L' = []")
      case True
      then show ?thesis using L by (intro exI [of _ "[]"]) simp
    next
      case False
      have st: "list_all (\<lambda>l. l = [] \<or> tidy l) L'" using assms(1) L by simp
      have "join_nl L = nl # join_nl L'" using L False by (cases L') auto
      then have "collapse_blank (join_nl L) = [nl] @ collapse_blank (join_nl ?M)"
        using collapse_blank_nl_join [OF st False] L by simp
      then show ?thesis by (intro exI [of _ "[nl]"]) simp
    qed
  qed
  then obtain p where p: "list_all isspace p" "collapse_blank (join_nl L) = p @ collapse_blank (join_nl ?M)"
    by blast
  show ?thesis
  proof (cases "?M = []")
    case True
    then have "filter (\<lambda>l. l \<noteq> []) L = []" using fM by simp
    moreover have d: "dropWhile isspace p = []"
      using p(1) by (simp add: dropWhile_eq_Nil_conv list_all_iff)
    have "strip p = []" unfolding strip_def lstrip_def rstrip_def d by simp
    ultimately show ?thesis using p(2) True \<open>strip p = []\<close> by simp
  next
    case False
    have hd: "hd ?M \<noteq> []" using dropWhile_empty_shape [of L] False by blast
    let ?F = "filter (\<lambda>l. l \<noteq> []) ?M"
    have c: "collapse_blank (join_nl ?M) = join_nl ?F @ (if last ?M = [] then [nl] else [])"
      using collapse_blank_join [OF stM False hd] .
    have "hd ?M \<in> set ?F" using False hd by simp
    then have Fne: "?F \<noteq> []" by (metis empty_iff empty_set)
    have "list_all tidy ?F" using stM by (auto simp: list_all_iff)
    then have J: "join_nl ?F \<noteq> []" "\<not> isspace (hd (join_nl ?F))" "\<not> isspace (last (join_nl ?F))"
      using join_tidy [OF Fne] by simp_all
    have "strip (p @ join_nl ?F @ (if last ?M = [] then [nl] else [])) = join_nl ?F"
      using J p(1) by (intro strip_pad) simp_all
    then show ?thesis using p(2) c fM by simp
  qed
qed

end
